theory Spec2Isabelle
  imports Main "HOL-Library.Sublist"
begin

section \<open>Values, value sets and lazy values\<close>

text \<open>
  A value is either a class defined by a syntax-tree node (\<open>ClassValue\<close>, identified by its
  index in the table of class definitions of the inference state) or any other value
  (compiled objects, instances, functions, wrappers), identified by a number; what such a
  value answers to \<open>py__mro__\<close>, \<open>is_class\<close> and \<open>get_metaclasses\<close> is data of the
  inference state.
\<close>

datatype py_value = TreeClass nat | Foreign nat

text \<open>
  A \<open>ValueSet\<close> is a deduplicated collection; it is kept as the list of its members in
  iteration order. An empty set is falsy.
\<close>

type_synonym value_set = "py_value list"

definition NO_VALUES :: value_set where
  "NO_VALUES = []"

definition ValueSet :: "py_value list \<Rightarrow> value_set" where
  "ValueSet xs = remdups xs"

definition from_sets :: "value_set list \<Rightarrow> value_set" where
  "from_sets sets = remdups (concat sets)"

datatype lazy_value = LazyTreeValue nat | LazyKnownValues value_set

datatype py_context = BuiltinsModule | Context nat

text \<open>
  The result of \<open>arguments.unpack()\<close>: pairs of an optional keyword and a lazy value, in
  call order.
\<close>

type_synonym arguments = "(string option \<times> lazy_value) list"

text \<open>
  A class definition: the name of its tree node, the context it is defined in, and the
  unpacked argument list between the parentheses of the class statement (\<open>None\<close> when
  \<open>get_super_arglist()\<close> finds none).
\<close>

record classdef =
  py_name :: string
  parent_context :: py_context
  super_arglist :: "arguments option"

text \<open>
  The inference state: the class definitions, what a syntax node infers to, what the name
  \<open>object\<close> resolves to in the builtins module, and the answers of the values that are not
  tree classes (\<open>foreign_mro f = None\<close>: the value has no \<open>py__mro__\<close> attribute).
\<close>

record infer_state =
  classes :: "classdef list"
  infer_node :: "nat \<Rightarrow> value_set"
  builtins_object :: value_set
  foreign_mro :: "nat \<Rightarrow> py_value list option"
  foreign_is_class :: "nat \<Rightarrow> bool"
  foreign_metaclasses :: "nat \<Rightarrow> value_set"

text \<open>\<open>lazy_value.infer()\<close>\<close>

fun infer :: "infer_state \<Rightarrow> lazy_value \<Rightarrow> value_set" where
  "infer S (LazyTreeValue n) = infer_node S n"
| "infer S (LazyKnownValues vs) = vs"

fun is_class :: "infer_state \<Rightarrow> py_value \<Rightarrow> bool" where
  "is_class S (TreeClass c) = True"
| "is_class S (Foreign f) = foreign_is_class S f"

section \<open>The class model (\<open>jedi/inference/value/klass.py\<close>)\<close>

subsection \<open>Base classes\<close>

definition get_bases_arguments :: "infer_state \<Rightarrow> nat \<Rightarrow> arguments option" where
  "get_bases_arguments S c = super_arglist (classes S ! c)"

text \<open>
  \<open>ClassValue.py__bases__\<close>. The inner \<open>case\<close> is the early \<open>return lst\<close>; \<open>None\<close>
  there means that control falls through to the default. The body calls nothing that
  comes back to a class, so its memoizing decorator has nothing to cut.
\<close>

definition py_bases :: "infer_state \<Rightarrow> nat \<Rightarrow> lazy_value list" where
  "py_bases S c =
     (case (case get_bases_arguments S c of
              None \<Rightarrow> None
            | Some args \<Rightarrow>
                (let lst = map snd (filter (\<lambda>(key, v). key = None) args)
                 in if lst \<noteq> [] then Some lst else None)) of
        Some lst \<Rightarrow> lst
      | None \<Rightarrow>
          if py_name (classes S ! c) = ''object''
             \<and> parent_context (classes S ! c) = BuiltinsModule
          then []
          else [LazyKnownValues (builtins_object S)])"

subsection \<open>Method resolution order\<close>

text \<open>
  The memo of one method in one inference session, keyed by the class. An entry of the
  generator memo is the list a finished call produced, or the mark of a call that is
  still running.
\<close>

datatype mro_entry = Sentinel | Cached "py_value list"

type_synonym mro_cache = "nat \<rightharpoonup> mro_entry"

text \<open>
  A memoized method takes the memo and returns its result with the memo it leaves;
  \<open>None\<close> stands for a call that exceeds the depth of nested calls allowed.
\<close>

type_synonym mro_method = "mro_cache \<Rightarrow> nat \<Rightarrow> (py_value list \<times> mro_cache) option"

text \<open>
  Modelled from the spec: the decorator \<open>infer_state_method_generator_cache\<close> of
  \<open>jedi/inference/cache.py\<close>, which is not among the sources. The spec: calls are memoized
  per inference session, keyed by class and method, and ``a cache entry under active
  computation that is re-entered recursively returns a designated no-result-yet sentinel
  rather than recursing unboundedly''. A re-entered call so yields no element.
\<close>

definition generator_cache :: "mro_method \<Rightarrow> mro_method" where
  "generator_cache function memo obj =
     (case memo obj of
        Some (Cached lst) \<Rightarrow> Some (lst, memo)
      | Some Sentinel \<Rightarrow> Some ([], memo)
      | None \<Rightarrow>
          (case function (memo(obj \<mapsto> Sentinel)) obj of
             None \<Rightarrow> None
           | Some (lst, memo') \<Rightarrow> Some (lst, memo'(obj \<mapsto> Cached lst))))"

text \<open>
  The innermost loop of \<open>py__mro__\<close>: \<open>for cls_new in mro_method(): if cls_new not in mro:
  mro.append(cls_new); yield cls_new\<close>. The list \<open>mro\<close> is also what has been yielded.
\<close>

fun mro_extend :: "py_value list \<Rightarrow> py_value list \<Rightarrow> py_value list" where
  "mro_extend mro [] = mro"
| "mro_extend mro (cls_new # rest) =
     mro_extend (if cls_new \<notin> set mro then mro @ [cls_new] else mro) rest"

text \<open>
  \<open>for cls in lazy_cls.infer()\<close>: a value without \<open>py__mro__\<close> is logged and skipped; the
  \<open>py__mro__\<close> of a tree class is the memoized method itself.
\<close>

fun mro_values ::
  "infer_state \<Rightarrow> mro_method \<Rightarrow> py_value list \<Rightarrow> py_value list \<Rightarrow> mro_cache
     \<Rightarrow> (py_value list \<times> mro_cache) option" where
  "mro_values S mro_method [] mro memo = Some (mro, memo)"
| "mro_values S mro_method (Foreign f # rest) mro memo =
     (case foreign_mro S f of
        None \<Rightarrow> mro_values S mro_method rest mro memo
      | Some lst \<Rightarrow> mro_values S mro_method rest (mro_extend mro lst) memo)"
| "mro_values S mro_method (TreeClass d # rest) mro memo =
     (case mro_method memo d of
        None \<Rightarrow> None
      | Some (lst, memo') \<Rightarrow> mro_values S mro_method rest (mro_extend mro lst) memo')"

text \<open>\<open>for lazy_cls in self.py__bases__()\<close>\<close>

fun mro_bases ::
  "infer_state \<Rightarrow> mro_method \<Rightarrow> lazy_value list \<Rightarrow> py_value list \<Rightarrow> mro_cache
     \<Rightarrow> (py_value list \<times> mro_cache) option" where
  "mro_bases S mro_method [] mro memo = Some (mro, memo)"
| "mro_bases S mro_method (lazy_cls # rest) mro memo =
     (case mro_values S mro_method (infer S lazy_cls) mro memo of
        None \<Rightarrow> None
      | Some (mro', memo') \<Rightarrow> mro_bases S mro_method rest mro' memo')"

text \<open>The body of \<open>ClassMixin.py__mro__\<close>: \<open>mro = [self]; yield self\<close>, then the loops.\<close>

definition mro_body :: "infer_state \<Rightarrow> mro_method \<Rightarrow> mro_method" where
  "mro_body S mro_method memo c = mro_bases S mro_method (py_bases S c) [TreeClass c] memo"

text \<open>
  \<open>ClassMixin.py__mro__\<close> as decorated; the first argument bounds the depth of nested
  calls.
\<close>

primrec py_mro :: "nat \<Rightarrow> infer_state \<Rightarrow> mro_method" where
  "py_mro 0 S = (\<lambda>memo c. None)"
| "py_mro (Suc fuel) S = generator_cache (mro_body S (py_mro fuel S))"

subsection \<open>Metaclasses\<close>

type_synonym meta_cache = "nat \<rightharpoonup> value_set"

type_synonym meta_method = "meta_cache \<Rightarrow> nat \<Rightarrow> (value_set \<times> meta_cache) option"

text \<open>
  Modelled from the spec: the decorator \<open>infer_state_method_cache(default=...)\<close> of
  \<open>jedi/inference/cache.py\<close>, which is not among the sources. The spec: calls are memoized
  once per inference session, keyed by class and method, and a re-entered entry under
  active computation returns a designated no-result-yet value; the source names that
  value in the decorator's argument (\<open>NO_VALUES\<close> for \<open>get_metaclasses\<close>).
\<close>

definition method_cache :: "value_set \<Rightarrow> meta_method \<Rightarrow> meta_method" where
  "method_cache dflt function memo obj =
     (case memo obj of
        Some rv \<Rightarrow> Some (rv, memo)
      | None \<Rightarrow>
          (case function (memo(obj \<mapsto> dflt)) obj of
             None \<Rightarrow> None
           | Some (rv, memo') \<Rightarrow> Some (rv, memo'(obj \<mapsto> rv))))"

text \<open>\<open>value.get_metaclasses()\<close>, on a tree class the memoized method itself.\<close>

fun value_get_metaclasses ::
  "infer_state \<Rightarrow> meta_method \<Rightarrow> meta_cache \<Rightarrow> py_value \<Rightarrow> (value_set \<times> meta_cache) option" where
  "value_get_metaclasses S get_metaclasses memo (TreeClass d) = get_metaclasses memo d"
| "value_get_metaclasses S get_metaclasses memo (Foreign f) =
     Some (foreign_metaclasses S f, memo)"

text \<open>
  \<open>for value in lazy_base.infer()\<close>; the inner \<open>Some values\<close> of the result is the early
  \<open>return values\<close>.
\<close>

fun metaclasses_values ::
  "infer_state \<Rightarrow> meta_method \<Rightarrow> py_value list \<Rightarrow> meta_cache
     \<Rightarrow> (value_set option \<times> meta_cache) option" where
  "metaclasses_values S get_metaclasses [] memo = Some (None, memo)"
| "metaclasses_values S get_metaclasses (v # rest) memo =
     (if is_class S v then
        (case value_get_metaclasses S get_metaclasses memo v of
           None \<Rightarrow> None
         | Some (values, memo') \<Rightarrow>
             if values \<noteq> [] then Some (Some values, memo')
             else metaclasses_values S get_metaclasses rest memo')
      else metaclasses_values S get_metaclasses rest memo)"

text \<open>\<open>for lazy_base in self.py__bases__()\<close>\<close>

fun metaclasses_bases ::
  "infer_state \<Rightarrow> meta_method \<Rightarrow> lazy_value list \<Rightarrow> meta_cache
     \<Rightarrow> (value_set option \<times> meta_cache) option" where
  "metaclasses_bases S get_metaclasses [] memo = Some (None, memo)"
| "metaclasses_bases S get_metaclasses (lazy_base # rest) memo =
     (case metaclasses_values S get_metaclasses (infer S lazy_base) memo of
        None \<Rightarrow> None
      | Some (Some values, memo') \<Rightarrow> Some (Some values, memo')
      | Some (None, memo') \<Rightarrow> metaclasses_bases S get_metaclasses rest memo')"

text \<open>
  The first part of \<open>get_metaclasses\<close>: the \<open>metaclass=\<close> arguments, inferred, the classes
  among them kept; \<open>Some\<close> is the early \<open>return metaclasses\<close>.
\<close>

definition keyword_metaclasses :: "infer_state \<Rightarrow> nat \<Rightarrow> value_set option" where
  "keyword_metaclasses S c =
     (case get_bases_arguments S c of
        None \<Rightarrow> None
      | Some args \<Rightarrow>
          (let m = map snd (filter (\<lambda>(key, v). key = Some ''metaclass'') args);
               metaclasses = from_sets (map (infer S) m);
               metaclasses = ValueSet (filter (is_class S) metaclasses)
           in if metaclasses \<noteq> [] then Some metaclasses else None))"

definition get_metaclasses_body :: "infer_state \<Rightarrow> meta_method \<Rightarrow> meta_method" where
  "get_metaclasses_body S get_metaclasses memo c =
     (case keyword_metaclasses S c of
        Some metaclasses \<Rightarrow> Some (metaclasses, memo)
      | None \<Rightarrow>
          (case metaclasses_bases S get_metaclasses (py_bases S c) memo of
             None \<Rightarrow> None
           | Some (Some values, memo') \<Rightarrow> Some (values, memo')
           | Some (None, memo') \<Rightarrow> Some (NO_VALUES, memo')))"

text \<open>
  \<open>ClassValue.get_metaclasses\<close> as decorated; the first argument bounds the depth of
  nested calls.
\<close>

primrec get_metaclasses :: "nat \<Rightarrow> infer_state \<Rightarrow> meta_method" where
  "get_metaclasses 0 S = (\<lambda>memo c. None)"
| "get_metaclasses (Suc fuel) S =
     method_cache NO_VALUES (get_metaclasses_body S (get_metaclasses fuel S))"



subsection \<open>Well-formed inference states\<close>

text \<open>
  Every tree class that a base of a class of the table infers to is in the table.
\<close>

definition wf_state :: "infer_state \<Rightarrow> bool" where
  "wf_state S =
     (\<forall>c \<in> set [0..<length (classes S)].
        \<forall>lazy_cls \<in> set (py_bases S c).
          \<forall>v \<in> set (infer S lazy_cls).
            (case v of TreeClass d \<Rightarrow> d < length (classes S) | Foreign f \<Rightarrow> True))"

text \<open>A class has no explicit bases when its statement gives no positional argument.\<close>

definition no_explicit_bases :: "infer_state \<Rightarrow> nat \<Rightarrow> bool" where
  "no_explicit_bases S c =
     (case get_bases_arguments S c of
        None \<Rightarrow> True
      | Some args \<Rightarrow> filter (\<lambda>(key, v). key = None) args = [])"

text \<open>
  The universal root class: the name \<open>object\<close> of the builtins module resolves to the one
  class \<open>r\<close>, which is the class defined there under that name, and has no explicit bases.
\<close>

definition builtin_root :: "infer_state \<Rightarrow> nat \<Rightarrow> bool" where
  "builtin_root S r =
     (r < length (classes S) \<and> builtins_object S = [TreeClass r]
      \<and> no_explicit_bases S r
      \<and> (\<forall>c \<in> set [0..<length (classes S)].
            (py_name (classes S ! c) = ''object''
             \<and> parent_context (classes S ! c) = BuiltinsModule) = (c = r)))"

text \<open>
  What holds of a list that \<open>py_mro\<close> has stored for the class \<open>d\<close>: it starts with the
  class and repeats nothing; it is the class alone when the class has no bases at all, and
  it ends with the class \<open>r\<close> when the only base is the known value \<open>r\<close> and \<open>r\<close> has no
  bases.
\<close>

definition mro_entry_ok :: "infer_state \<Rightarrow> nat \<Rightarrow> py_value list \<Rightarrow> bool" where
  "mro_entry_ok S d lst =
     (lst \<noteq> [] \<and> hd lst = TreeClass d \<and> distinct lst
      \<and> (py_bases S d = [] \<longrightarrow> lst = [TreeClass d])
      \<and> (\<forall>r. py_bases S d = [LazyKnownValues [TreeClass r]] \<and> py_bases S r = []
             \<longrightarrow> last lst = TreeClass r))"

text \<open>
  A memo as a session leaves it between two queries: no call is running, and every stored
  list is as above.
\<close>

definition mro_of_session :: "infer_state \<Rightarrow> mro_cache \<Rightarrow> bool" where
  "mro_of_session S memo =
     (\<forall>d. case memo d of
            None \<Rightarrow> True
          | Some Sentinel \<Rightarrow> False
          | Some (Cached lst) \<Rightarrow> mro_entry_ok S d lst)"

text \<open>
  The invariant of the memo while calls are running: the stored lists are as above, and no
  class without bases is marked as running (its body calls nothing).
\<close>

definition mro_invariant :: "infer_state \<Rightarrow> mro_cache \<Rightarrow> bool" where
  "mro_invariant S memo =
     ((\<forall>d lst. memo d = Some (Cached lst) \<longrightarrow> mro_entry_ok S d lst)
      \<and> (\<forall>r. py_bases S r = [] \<longrightarrow> memo r \<noteq> Some Sentinel))"

text \<open>The classes of the table that a memo has no entry for.\<close>

definition uncached :: "infer_state \<Rightarrow> (nat \<rightharpoonup> 'a) \<Rightarrow> nat set" where
  "uncached S memo = {d. d < length (classes S) \<and> memo d = None}"


text \<open>What a memoized method must keep for the invariant to hold along the loops.\<close>

definition keeps_invariant :: "infer_state \<Rightarrow> mro_method \<Rightarrow> bool" where
  "keeps_invariant S rec =
     (\<forall>memo d lst memo'. mro_invariant S memo \<longrightarrow> rec memo d = Some (lst, memo') \<longrightarrow>
        mro_invariant S memo'
        \<and> (\<forall>x. (memo' x = Some Sentinel) = (memo x = Some Sentinel))
        \<and> (memo d \<noteq> Some Sentinel \<longrightarrow> mro_entry_ok S d lst))"

text \<open>
  A memoized method returns on every class of the table, and only adds entries to the memo,
  from every memo with fewer than \<open>k\<close> classes of the table still without an entry.
\<close>

definition returns_within ::
  "infer_state \<Rightarrow> ((nat \<rightharpoonup> 'a) \<Rightarrow> nat \<Rightarrow> ('r \<times> (nat \<rightharpoonup> 'a)) option) \<Rightarrow> nat \<Rightarrow> bool" where
  "returns_within S method k =
     (\<forall>memo d. d < length (classes S) \<longrightarrow> card (uncached S memo) < k \<longrightarrow>
        (\<exists>r memo'. method memo d = Some (r, memo') \<and> dom memo \<subseteq> dom memo'))"

text \<open>The tree classes among the values are classes of the table.\<close>

definition values_in_table :: "infer_state \<Rightarrow> py_value list \<Rightarrow> bool" where
  "values_in_table S vs =
     (\<forall>v \<in> set vs. case v of TreeClass d \<Rightarrow> d < length (classes S) | Foreign f \<Rightarrow> True)"


subsection \<open>The class filter\<close>

text \<open>
  Modelled from the spec: \<open>get_cached_parent_scope\<close>, which is not among the sources; the
  spec has the check walk ``the origin scope's ancestor chain''. A scope node carries its
  number and its parent scope, \<open>None\<close> at the module.
\<close>

datatype scope = Scope nat "scope option"

text \<open>
  What \<open>_access_possible\<close> reads of the definition of a name: whether it is an
  \<open>expr_stmt\<close>, whether the second child of that statement is an \<open>annassign\<close>, and the
  code of the annotation.
\<close>

datatype definition_child = Annassign string | OtherChild string

datatype definition_node = ExprStmt definition_child | OtherDefinition string

record tree_name =
  name_value :: string
  get_definition :: "definition_node option"

text \<open>
  The loop of \<open>_equals_origin_scope\<close> compares a scope node with the parser scope of the
  filter and with the filter's value, which is a value and not a node.
\<close>

datatype py_object = NodeObject scope | ValueObject py_value

record class_filter =
  origin_scope :: "scope option"
  parser_scope :: scope
  filter_value :: py_value

fun equals_origin_scope_from :: "class_filter \<Rightarrow> scope \<Rightarrow> bool" where
  "equals_origin_scope_from f (Scope i parent) =
     (if Scope i parent = parser_scope f
         \<or> NodeObject (Scope i parent) = ValueObject (filter_value f)
      then True
      else case parent of None \<Rightarrow> False | Some p \<Rightarrow> equals_origin_scope_from f p)"

definition equals_origin_scope :: "class_filter \<Rightarrow> bool" where
  "equals_origin_scope f =
     (case origin_scope f of None \<Rightarrow> False | Some node \<Rightarrow> equals_origin_scope_from f node)"

definition access_possible :: "class_filter \<Rightarrow> tree_name \<Rightarrow> bool \<Rightarrow> bool" where
  "access_possible f name from_instance =
     (if \<not> from_instance
         \<and> (case get_definition name of
              Some (ExprStmt (Annassign code)) \<Rightarrow> \<not> sublist ''ClassVar'' code
            | _ \<Rightarrow> False)
      then False
      else \<not> prefix ''__'' (name_value name) \<or> suffix ''__'' (name_value name)
           \<or> equals_origin_scope f)"

text \<open>
  \<open>ClassFilter._filter\<close>; \<open>super_filter\<close> is the \<open>_filter\<close> of the parent class
  \<open>ParserTreeFilter\<close>, which is not among the sources.
\<close>

definition class_filter_names ::
  "(tree_name list \<Rightarrow> tree_name list) \<Rightarrow> class_filter \<Rightarrow> tree_name list \<Rightarrow> bool
     \<Rightarrow> tree_name list" where
  "class_filter_names super_filter f names from_instance =
     filter (\<lambda>name. access_possible f name from_instance) (super_filter names)"

text \<open>The origin scope and its ancestors, innermost first.\<close>

fun ancestors :: "scope \<Rightarrow> scope list" where
  "ancestors (Scope i parent) =
     Scope i parent # (case parent of None \<Rightarrow> [] | Some p \<Rightarrow> ancestors p)"

text \<open>
  The origin of an access lies inside the class body when the class's own scope node is
  the origin scope or one of its ancestors.
\<close>

definition origin_inside :: "class_filter \<Rightarrow> bool" where
  "origin_inside f =
     (case origin_scope f of None \<Rightarrow> False | Some node \<Rightarrow> parser_scope f \<in> set (ancestors node))"

text \<open>The \<open>ClassVar\<close> rule of \<open>_access_possible\<close>, which precedes the name-mangling rule.\<close>

definition hidden_annotation :: "tree_name \<Rightarrow> bool \<Rightarrow> bool" where
  "hidden_annotation name from_instance =
     (\<not> from_instance
      \<and> (\<exists>code. get_definition name = Some (ExprStmt (Annassign code))
                 \<and> \<not> sublist ''ClassVar'' code))"

section \<open>Standard-library patches (\<open>jedi/plugins/stdlib.py\<close>)\<close>

subsection \<open>\<open>type\<close>\<close>

text \<open>
  \<open>builtins_type\<close> receives three value sets from the argument front-end. \<open>py_class\<close> is
  \<open>py__class__()\<close> of a single value; on a value set it is applied to every member.
\<close>

definition builtins_type ::
  "(py_value \<Rightarrow> py_value) \<Rightarrow> value_set \<Rightarrow> value_set \<Rightarrow> value_set \<Rightarrow> value_set" where
  "builtins_type py_class objects bases dicts =
     (if bases \<noteq> [] \<or> dicts \<noteq> [] then NO_VALUES
      else ValueSet (map py_class objects))"

text \<open>
  Modelled from the spec: the argument front-end of the patches (\<open>argument_clinic\<close> over
  \<open>repack_with_argument_clinic\<close> of \<open>jedi/inference/arguments.py\<close>, which is not among the
  sources). The spec: each patch ``receives the pre-inferred argument set of the call'',
  through a front-end that validates the call against the declared shape, here
  \<open>object[, bases, dict], /\<close>, one required and two optional positional parameters, and
  ``mismatched arity aborts before the site-specific implementation runs''. A parameter
  gets the value set its argument infers to, which is empty when nothing could be
  determined, and an optional parameter without an argument gets the empty value set;
  \<open>None\<close> is the abort.
\<close>

definition type_clinic ::
  "infer_state \<Rightarrow> lazy_value list \<Rightarrow> (value_set \<times> value_set \<times> value_set) option" where
  "type_clinic S args =
     (case args of
        [object] \<Rightarrow> Some (infer S object, NO_VALUES, NO_VALUES)
      | [object, bases] \<Rightarrow> Some (infer S object, infer S bases, NO_VALUES)
      | [object, bases, dict] \<Rightarrow> Some (infer S object, infer S bases, infer S dict)
      | _ \<Rightarrow> None)"

text \<open>A call of \<open>type\<close> with the given positional arguments, as the patch answers it.\<close>

definition builtins_type_call ::
  "infer_state \<Rightarrow> (py_value \<Rightarrow> py_value) \<Rightarrow> lazy_value list \<Rightarrow> value_set option" where
  "builtins_type_call S py_class args =
     (case type_clinic S args of
        None \<Rightarrow> None
      | Some (objects, bases, dicts) \<Rightarrow> Some (builtins_type py_class objects bases dicts))"

subsection \<open>\<open>super\<close>\<close>

text \<open>
  A filter is named by the class whose names it shows. Of the other modules the proxy uses
  \<open>py_class\<close> (the tree class of an instance), \<open>execute\<close> (the values a call of a value
  returns; on a value set, the union over its members) and \<open>get_filters\<close> (the filters
  of an object).
\<close>

datatype py_filter = FilterOf py_value

datatype super_instance = SuperInstance (the_instance: py_value)

definition execute_with_values :: "(py_value \<Rightarrow> value_set) \<Rightarrow> value_set \<Rightarrow> value_set" where
  "execute_with_values execute vs = from_sets (map execute vs)"

definition super_get_bases ::
  "infer_state \<Rightarrow> (py_value \<Rightarrow> nat) \<Rightarrow> super_instance \<Rightarrow> lazy_value list" where
  "super_get_bases S py_class self = py_bases S (py_class (the_instance self))"

text \<open>\<open>for obj in b.infer().execute_with_values(): for f in obj.get_filters(): yield f\<close>\<close>

fun filters_of_objects :: "(py_value \<Rightarrow> py_filter list) \<Rightarrow> py_value list \<Rightarrow> py_filter list" where
  "filters_of_objects get_filters [] = []"
| "filters_of_objects get_filters (obj # rest) =
     get_filters obj @ filters_of_objects get_filters rest"

text \<open>\<open>for b in self._get_bases()\<close>\<close>

fun filters_of_bases ::
  "infer_state \<Rightarrow> (py_value \<Rightarrow> value_set) \<Rightarrow> (py_value \<Rightarrow> py_filter list) \<Rightarrow> lazy_value list
     \<Rightarrow> py_filter list" where
  "filters_of_bases S execute get_filters [] = []"
| "filters_of_bases S execute get_filters (b # rest) =
     filters_of_objects get_filters (execute_with_values execute (infer S b))
       @ filters_of_bases S execute get_filters rest"

definition super_get_filters ::
  "infer_state \<Rightarrow> (py_value \<Rightarrow> nat) \<Rightarrow> (py_value \<Rightarrow> value_set) \<Rightarrow> (py_value \<Rightarrow> py_filter list)
     \<Rightarrow> super_instance \<Rightarrow> py_filter list" where
  "super_get_filters S py_class execute get_filters self =
     filters_of_bases S execute get_filters (super_get_bases S py_class self)"

text \<open>The filters that lookup through the instances of one base walks.\<close>

definition base_filters ::
  "infer_state \<Rightarrow> (py_value \<Rightarrow> value_set) \<Rightarrow> (py_value \<Rightarrow> py_filter list) \<Rightarrow> lazy_value
     \<Rightarrow> py_filter list" where
  "base_filters S execute get_filters b =
     concat (map get_filters (execute_with_values execute (infer S b)))"

subsection \<open>\<open>functools.partial\<close>\<close>

datatype param_name = ParamName (string_name: string)

datatype signature =
    Signature "param_name list"
  | PartialSignature signature nat "string set"

fun get_param_names :: "signature \<Rightarrow> param_name list" where
  "get_param_names (Signature names) = names"
| "get_param_names (PartialSignature wrapped_signature skipped_arg_count skipped_arg_set) =
     (let names = drop skipped_arg_count (get_param_names wrapped_signature)
      in filter (\<lambda>n. string_name n \<notin> skipped_arg_set) names)"

text \<open>
  \<open>PartialObject._get_function\<close> takes the first pair off the iterator of unpacked
  arguments; the rest of the iterator is returned with the result.
\<close>

fun get_function :: "infer_state \<Rightarrow> arguments \<Rightarrow> value_set option \<times> arguments" where
  "get_function S [] = (None, [])"
| "get_function S ((key, lazy) # unpacked) =
     (if key \<noteq> None then (None, unpacked) else (Some (infer S lazy), unpacked))"

text \<open>The loop of \<open>PartialObject.get_signatures\<close> over the remaining pairs.\<close>

fun count_arguments :: "arguments \<Rightarrow> nat \<Rightarrow> string set \<Rightarrow> nat \<times> string set" where
  "count_arguments [] arg_count keys = (arg_count, keys)"
| "count_arguments ((key, _) # unpacked) arg_count keys =
     (case key of
        None \<Rightarrow> count_arguments unpacked (arg_count + 1) keys
      | Some k \<Rightarrow> count_arguments unpacked arg_count (insert k keys))"

text \<open>
  \<open>PartialObject.get_signatures\<close>; \<open>sigs\<close> gives the signatures of a single value, and a
  value set reports those of its members one after the other.
\<close>

definition partial_get_signatures ::
  "(py_value \<Rightarrow> signature list) \<Rightarrow> infer_state \<Rightarrow> arguments \<Rightarrow> signature list" where
  "partial_get_signatures sigs S args =
     (case get_function S args of
        (None, _) \<Rightarrow> []
      | (Some func, unpacked) \<Rightarrow>
          (case count_arguments unpacked 0 {} of
             (arg_count, keys) \<Rightarrow>
               map (\<lambda>s. PartialSignature s arg_count keys) (concat (map sigs func))))"

section \<open>Syntax-tree utilities (\<open>jedi/parser_utils.py\<close>)\<close>

datatype error = ValueError | AttributeError | IndexError

type_synonym position = "nat \<times> nat"

text \<open>
  What the utilities read of a node besides its children: its type, its span, the type of
  its parent (\<open>None\<close>: no parent) and the type and text of the leaf that follows it
  (\<open>get_next_leaf()\<close>; \<open>None\<close>: there is none). A leaf has its text and no \<open>children\<close>
  attribute.
\<close>

record attrs =
  node_type :: string
  start_pos :: position
  end_pos :: position
  parent_type :: "string option"
  next_leaf :: "(string \<times> string) option"

datatype tree = Leaf attrs string | Node attrs "tree list"

fun attrs_of :: "tree \<Rightarrow> attrs" where
  "attrs_of (Leaf a v) = a"
| "attrs_of (Node a cs) = a"

fun children :: "tree \<Rightarrow> error + tree list" where
  "children (Leaf a v) = Inl AttributeError"
| "children (Node a cs) = Inr cs"

text \<open>
  Operator and keyword leaves compare equal to a string when it is their text; any other
  node is equal to no string.
\<close>

definition string_comparison :: "string \<Rightarrow> string \<Rightarrow> string \<Rightarrow> bool" where
  "string_comparison typ v other = ((typ = ''operator'' \<or> typ = ''keyword'') \<and> v = other)"

fun eq_str :: "tree \<Rightarrow> string \<Rightarrow> bool" where
  "eq_str (Leaf a v) other = string_comparison (node_type a) v other"
| "eq_str (Node a cs) other = False"

definition next_leaf_eq :: "tree \<Rightarrow> string \<Rightarrow> bool" where
  "next_leaf_eq node other =
     (case next_leaf (attrs_of node) of
        None \<Rightarrow> False
      | Some (typ, v) \<Rightarrow> string_comparison typ v other)"

definition EXECUTE_NODES :: "string set" where
  "EXECUTE_NODES = {''funcdef'', ''classdef'', ''import_from'', ''import_name'', ''test'',
     ''or_test'', ''and_test'', ''not_test'', ''comparison'', ''expr'', ''xor_expr'',
     ''and_expr'', ''shift_expr'', ''arith_expr'', ''atom_expr'', ''term'', ''factor'',
     ''power'', ''atom''}"

definition FLOW_KEYWORDS :: "string list" where
  "FLOW_KEYWORDS = [''try'', ''except'', ''finally'', ''else'', ''if'', ''elif'', ''with'',
     ''for'', ''while'']"

subsection \<open>\<open>get_executable_nodes\<close>\<close>

text \<open>
  \<open>executable_children cs last_added result\<close> is the loop \<open>for child in children: result +=
  get_executable_nodes(child, last_added)\<close>. In the decorator branch, \<open>children[-2]\<close> and
  \<open>children[-3]\<close> raise \<open>IndexError\<close> on a shorter list.
\<close>

function get_executable_nodes :: "tree \<Rightarrow> bool \<Rightarrow> error + tree list"
  and executable_children :: "tree list \<Rightarrow> bool \<Rightarrow> tree list \<Rightarrow> error + tree list" where
  "get_executable_nodes node last_added =
     (let typ = node_type (attrs_of node) in
      if typ = ''name'' then
        (if last_added then Inr []
         else case parent_type (attrs_of node) of
           None \<Rightarrow> Inl AttributeError
         | Some parent_typ \<Rightarrow>
             if parent_typ \<noteq> ''param'' \<and> \<not> next_leaf_eq node ''='' then Inr [node]
             else Inr [])
      else if typ = ''expr_stmt'' then
        (case node of
           Leaf a v \<Rightarrow> Inl AttributeError
         | Node a cs \<Rightarrow> executable_children cs True [node])
      else if typ = ''decorator'' then
        (case node of
           Leaf a v \<Rightarrow> Inl AttributeError
         | Node a cs \<Rightarrow>
             if 2 \<le> length cs then
               if eq_str (cs ! (length cs - 2)) '')'' then
                 if 3 \<le> length cs then
                   if \<not> eq_str (cs ! (length cs - 3)) ''(''
                   then get_executable_nodes (cs ! (length cs - 3)) False
                   else Inr []
                 else Inl IndexError
               else Inr []
             else Inl IndexError)
      else
        (case node of
           Leaf a v \<Rightarrow> Inr []
         | Node a cs \<Rightarrow>
             executable_children cs last_added
               (if typ \<in> EXECUTE_NODES \<and> \<not> last_added then [node] else [])))"
| "executable_children [] last_added result = Inr result"
| "executable_children (child # rest) last_added result =
     (case get_executable_nodes child last_added of
        Inl e \<Rightarrow> Inl e
      | Inr r \<Rightarrow> executable_children rest last_added (result @ r))"
  by pat_completeness auto
termination
proof (relation "measure (\<lambda>x. case x of Inl (node, b) \<Rightarrow> 2 * size node
                               | Inr (cs, b, r) \<Rightarrow> 2 * size_list size cs + 1)")
  show "wf (measure (\<lambda>x. case x of Inl (node, b) \<Rightarrow> 2 * size node
                               | Inr (cs, b, r) \<Rightarrow> 2 * size_list size cs + 1))"
    by simp
next
  fix node :: tree and last_added :: bool and a :: attrs and cs :: "tree list"
  assume node: "node = Node a cs" and len: "3 \<le> length cs"
  from len have "cs ! (length cs - 3) \<in> set cs" by simp
  then have "size (cs ! (length cs - 3)) \<le> size_list size cs"
    by (simp add: size_list_estimation')
  then show "(Inl (cs ! (length cs - 3), False), Inl (node, last_added))
       \<in> measure (\<lambda>x. case x of Inl (node, b) \<Rightarrow> 2 * size node
                               | Inr (cs, b, r) \<Rightarrow> 2 * size_list size cs + 1)"
    using node by simp
qed auto

declare get_executable_nodes.simps [simp del]

text \<open>A node that is not a name, or a name neither of a parameter nor followed by \<open>=\<close>.\<close>

definition admissible_name :: "tree \<Rightarrow> bool" where
  "admissible_name n =
     (node_type (attrs_of n) = ''name'' \<longrightarrow>
        parent_type (attrs_of n) \<noteq> Some ''param'' \<and> \<not> next_leaf_eq n ''='')"

subsection \<open>\<open>get_flow_branch_keyword\<close>\<close>

text \<open>Positions are pairs of line and column, compared as Python compares tuples.\<close>

fun pos_less :: "position \<Rightarrow> position \<Rightarrow> bool" where
  "pos_less (l1, c1) (l2, c2) = (l1 < l2 \<or> (l1 = l2 \<and> c1 < c2))"

definition pos_le :: "position \<Rightarrow> position \<Rightarrow> bool" where
  "pos_le p q = (pos_less p q \<or> p = q)"

fun get_first_leaf :: "tree \<Rightarrow> error + tree" where
  "get_first_leaf (Leaf a v) = Inr (Leaf a v)"
| "get_first_leaf (Node a []) = Inl IndexError"
| "get_first_leaf (Node a (c # cs)) = get_first_leaf c"

text \<open>What the function returns: \<open>None\<close>, a keyword leaf, or the integer of its last line.\<close>

datatype keyword_result = PyNone | Keyword tree | PyInt int

definition in_flow_keywords :: "tree \<Rightarrow> bool" where
  "in_flow_keywords first_leaf = (\<exists>k \<in> set FLOW_KEYWORDS. eq_str first_leaf k)"

text \<open>The loop over \<open>flow_node.children\<close>, with the \<open>return 0\<close> that follows it.\<close>

fun flow_children_loop ::
  "position \<Rightarrow> tree list \<Rightarrow> keyword_result \<Rightarrow> error + keyword_result" where
  "flow_children_loop start [] keyword = Inr (PyInt 0)"
| "flow_children_loop start (child # rest) keyword =
     (if pos_less start (start_pos (attrs_of child)) then Inr keyword
      else case get_first_leaf child of
        Inl e \<Rightarrow> Inl e
      | Inr first_leaf \<Rightarrow>
          flow_children_loop start rest
            (if in_flow_keywords first_leaf then Keyword first_leaf else keyword))"

definition get_flow_branch_keyword :: "tree \<Rightarrow> tree \<Rightarrow> error + keyword_result" where
  "get_flow_branch_keyword flow_node node =
     (let start = start_pos (attrs_of node) in
      if \<not> (pos_less (start_pos (attrs_of flow_node)) start
             \<and> pos_le start (end_pos (attrs_of flow_node)))
      then Inl ValueError
      else case children flow_node of
        Inl e \<Rightarrow> Inl e
      | Inr cs \<Rightarrow> flow_children_loop start cs PyNone)"

section \<open>Concrete inputs\<close>

text \<open>
  A session with the classes (by index)
  \<^verbatim>\<open>
  0  class object: ...                 (in the builtins module)
  1  class A: pass
  2  class B(A, metaclass=M): pass
  3  class M(type): pass               (type: a compiled class, Foreign 0)
  4  class X(Y): pass
  5  class Y(X): pass
  6  class D(B, A, 1): pass            (1: a value that is no class, Foreign 1)
  7  class E(A, M): pass
  8  class K(metaclass=M): pass
  9  class Z(Z): pass
  \<close>
  The node \<open>n < 10\<close> infers to the class \<open>n\<close>.
\<close>

definition example_state :: infer_state where
  "example_state = \<lparr>
     classes = [
       \<lparr>py_name = ''object'', parent_context = BuiltinsModule, super_arglist = None\<rparr>,
       \<lparr>py_name = ''A'', parent_context = Context 1, super_arglist = None\<rparr>,
       \<lparr>py_name = ''B'', parent_context = Context 1,
         super_arglist = Some [(None, LazyTreeValue 1), (Some ''metaclass'', LazyTreeValue 3)]\<rparr>,
       \<lparr>py_name = ''M'', parent_context = Context 1,
         super_arglist = Some [(None, LazyTreeValue 20)]\<rparr>,
       \<lparr>py_name = ''X'', parent_context = Context 1,
         super_arglist = Some [(None, LazyTreeValue 5)]\<rparr>,
       \<lparr>py_name = ''Y'', parent_context = Context 1,
         super_arglist = Some [(None, LazyTreeValue 4)]\<rparr>,
       \<lparr>py_name = ''D'', parent_context = Context 1,
         super_arglist =
           Some [(None, LazyTreeValue 2), (None, LazyTreeValue 1), (None, LazyTreeValue 21)]\<rparr>,
       \<lparr>py_name = ''E'', parent_context = Context 1,
         super_arglist = Some [(None, LazyTreeValue 1), (None, LazyTreeValue 3)]\<rparr>,
       \<lparr>py_name = ''K'', parent_context = Context 1,
         super_arglist = Some [(Some ''metaclass'', LazyTreeValue 3)]\<rparr>,
       \<lparr>py_name = ''Z'', parent_context = Context 1,
         super_arglist = Some [(None, LazyTreeValue 9)]\<rparr>],
     infer_node = (\<lambda>n. if n = 20 then [Foreign 0] else if n = 21 then [Foreign 1]
                        else if n < 10 then [TreeClass n] else []),
     builtins_object = [TreeClass 0],
     foreign_mro = (\<lambda>f. if f = 0 then Some [Foreign 0, TreeClass 0] else None),
     foreign_is_class = (\<lambda>f. f = 0),
     foreign_metaclasses = (\<lambda>f. [])\<rparr>"

text \<open>
  The instance of the class \<open>c\<close> is \<open>Foreign (100 + c)\<close>; its filters go along the method
  resolution order of its class.
\<close>

definition example_py_class :: "py_value \<Rightarrow> nat" where
  "example_py_class v = (case v of Foreign i \<Rightarrow> i - 100 | TreeClass c \<Rightarrow> c)"

definition example_execute :: "py_value \<Rightarrow> value_set" where
  "example_execute v = (case v of TreeClass c \<Rightarrow> [Foreign (100 + c)] | Foreign f \<Rightarrow> [])"

definition example_get_filters :: "py_value \<Rightarrow> py_filter list" where
  "example_get_filters v =
     (if v = Foreign 101 then [FilterOf (TreeClass 1), FilterOf (TreeClass 0)]
      else if v = Foreign 103
        then [FilterOf (TreeClass 3), FilterOf (Foreign 0), FilterOf (TreeClass 0)]
      else [])"

text \<open>
  The class of every value is the compiled class \<open>type\<close>, \<open>Foreign 0\<close>. The call
  \<open>type(A, undefined_name)\<close> has the arguments \<open>LazyTreeValue 1\<close>, which infers to the
  class \<open>A\<close>, and \<open>LazyTreeValue 30\<close>, which infers to nothing.
\<close>

definition example_class_of :: "py_value \<Rightarrow> py_value" where
  "example_class_of v = Foreign 0"

text \<open>
  \<open>partial(f, 1, c=9)\<close> for \<open>def f(a, b, c)\<close>: \<open>f\<close> is \<open>Foreign 5\<close>, the bound values are
  \<open>Foreign 1\<close> and \<open>Foreign 9\<close>.
\<close>

definition example_partial_arguments :: arguments where
  "example_partial_arguments =
     [(None, LazyKnownValues [Foreign 5]), (None, LazyKnownValues [Foreign 1]),
      (Some ''c'', LazyKnownValues [Foreign 9])]"

definition example_signatures :: "py_value \<Rightarrow> signature list" where
  "example_signatures v =
     (if v = Foreign 5 then [Signature [ParamName ''a'', ParamName ''b'', ParamName ''c'']]
      else [])"

text \<open>
  A class body (scope 2, in the module, scope 0) with a method (scope 3); the names
  \<open>__secret\<close> and \<open>__secret__\<close> are assigned in the class body.
\<close>

definition example_module_scope :: scope where
  "example_module_scope = Scope 0 None"

definition example_class_scope :: scope where
  "example_class_scope = Scope 2 (Some example_module_scope)"

definition example_method_scope :: scope where
  "example_method_scope = Scope 3 (Some example_class_scope)"

definition example_secret :: tree_name where
  "example_secret =
     \<lparr>name_value = ''__secret'', get_definition = Some (ExprStmt (OtherChild ''=''))\<rparr>"

definition example_dunder :: tree_name where
  "example_dunder =
     \<lparr>name_value = ''__secret__'', get_definition = Some (ExprStmt (OtherChild ''=''))\<rparr>"

definition example_names :: "tree_name list" where
  "example_names = [example_secret, example_dunder]"

text \<open>The same two names, defined by the annotated statements \<open>__secret: int\<close> and
  \<open>__secret__: int\<close>.\<close>

definition example_annotated_secret :: tree_name where
  "example_annotated_secret =
     \<lparr>name_value = ''__secret'', get_definition = Some (ExprStmt (Annassign ''int''))\<rparr>"

definition example_annotated_dunder :: tree_name where
  "example_annotated_dunder =
     \<lparr>name_value = ''__secret__'', get_definition = Some (ExprStmt (Annassign ''int''))\<rparr>"

definition example_annotated_names :: "tree_name list" where
  "example_annotated_names = [example_annotated_secret, example_annotated_dunder]"

definition example_filter :: "scope option \<Rightarrow> class_filter" where
  "example_filter origin =
     \<lparr>origin_scope = origin, parser_scope = example_class_scope, filter_value = TreeClass 1\<rparr>"

text \<open>Nodes with a span only, and nodes with a parent type and a next leaf only.\<close>

definition flow_leaf :: "string \<Rightarrow> string \<Rightarrow> position \<Rightarrow> position \<Rightarrow> tree" where
  "flow_leaf typ v s e =
     Leaf \<lparr>node_type = typ, start_pos = s, end_pos = e, parent_type = None, next_leaf = None\<rparr> v"

definition flow_node :: "string \<Rightarrow> position \<Rightarrow> position \<Rightarrow> tree list \<Rightarrow> tree" where
  "flow_node typ s e cs =
     Node \<lparr>node_type = typ, start_pos = s, end_pos = e, parent_type = None, next_leaf = None\<rparr> cs"

definition exec_leaf :: "string \<Rightarrow> string \<Rightarrow> string \<Rightarrow> (string \<times> string) option \<Rightarrow> tree" where
  "exec_leaf typ v parent nxt =
     Leaf \<lparr>node_type = typ, start_pos = (0, 0), end_pos = (0, 0), parent_type = Some parent,
           next_leaf = nxt\<rparr> v"

definition exec_node :: "string \<Rightarrow> string \<Rightarrow> tree list \<Rightarrow> tree" where
  "exec_node typ parent cs =
     Node \<lparr>node_type = typ, start_pos = (0, 0), end_pos = (0, 0), parent_type = Some parent,
           next_leaf = None\<rparr> cs"

text \<open>
  The statement
  \<^verbatim>\<open>
  if x:
      y
  else:
      z
  \<close>
  with lines counted from 1 and columns from 0.
\<close>

definition example_if :: tree where
  "example_if = flow_node ''if_stmt'' (1, 0) (5, 0)
     [flow_leaf ''keyword'' ''if'' (1, 0) (1, 2),
      flow_leaf ''name'' ''x'' (1, 3) (1, 4),
      flow_leaf ''operator'' '':'' (1, 4) (1, 5),
      flow_node ''suite'' (1, 5) (3, 0)
        [flow_leaf ''newline'' [CHR 0x0A] (1, 5) (2, 0),
         flow_node ''simple_stmt'' (2, 4) (3, 0)
           [flow_leaf ''name'' ''y'' (2, 4) (2, 5),
            flow_leaf ''newline'' [CHR 0x0A] (2, 5) (3, 0)]],
      flow_leaf ''keyword'' ''else'' (3, 0) (3, 4),
      flow_leaf ''operator'' '':'' (3, 4) (3, 5),
      flow_node ''suite'' (3, 5) (5, 0)
        [flow_leaf ''newline'' [CHR 0x0A] (3, 5) (4, 0),
         flow_node ''simple_stmt'' (4, 4) (5, 0)
           [flow_leaf ''name'' ''z'' (4, 4) (4, 5),
            flow_leaf ''newline'' [CHR 0x0A] (4, 5) (5, 0)]]]"

definition example_y :: tree where
  "example_y = flow_leaf ''name'' ''y'' (2, 4) (2, 5)"

definition example_z :: tree where
  "example_z = flow_leaf ''name'' ''z'' (4, 4) (4, 5)"

text \<open>
  The function \<^verbatim>\<open>def f(p): x = p\<close>: the name \<open>p\<close> of the parameter list has a \<open>param\<close>
  parent, and the name \<open>x\<close> is followed by \<open>=\<close>.
\<close>

definition example_funcdef :: tree where
  "example_funcdef = exec_node ''funcdef'' ''file_input''
     [exec_leaf ''keyword'' ''def'' ''funcdef'' (Some (''name'', ''f'')),
      exec_leaf ''name'' ''f'' ''funcdef'' (Some (''operator'', ''('')),
      exec_node ''parameters'' ''funcdef''
        [exec_leaf ''operator'' ''('' ''parameters'' (Some (''name'', ''p'')),
         exec_node ''param'' ''parameters''
           [exec_leaf ''name'' ''p'' ''param'' (Some (''operator'', '')''))],
         exec_leaf ''operator'' '')'' ''parameters'' (Some (''operator'', '':''))],
      exec_leaf ''operator'' '':'' ''funcdef'' (Some (''name'', ''x'')),
      exec_node ''expr_stmt'' ''simple_stmt''
        [exec_leaf ''name'' ''x'' ''expr_stmt'' (Some (''operator'', ''='')),
         exec_leaf ''operator'' ''='' ''expr_stmt'' (Some (''name'', ''p'')),
         exec_leaf ''name'' ''p'' ''expr_stmt'' None]]"

section \<open>Properties\<close>

subsection \<open>Base classes and patches\<close>

lemma count_arguments_eq:
  "count_arguments unpacked n keys =
     (n + length (filter (\<lambda>kv. fst kv = None) unpacked),
      keys \<union> {k. Some k \<in> fst ` set unpacked})"
proof (induction unpacked arbitrary: n keys)
  case Nil
  show ?case by simp
next
  case (Cons kv unpacked)
  obtain key lazy where kv: "kv = (key, lazy)" by (cases kv)
  show ?case
  proof (cases key)
    case None
    then show ?thesis using Cons.IH [of "n + 1" keys] kv by auto
  next
    case (Some k)
    then show ?thesis using Cons.IH [of n "insert k keys"] kv by auto
  qed
qed

text \<open>
  C3. \<open>py__bases__()\<close> returns exactly the positional arguments of the base-argument list
  when that list is there and gives at least one (keyword arguments such as \<open>metaclass=\<close>
  are left out); when no positional argument is found (the list is absent, or yields
  none), it returns no bases for the class named \<open>object\<close> of the builtins module, and
  otherwise exactly one implicit lazy base, which resolves to what \<open>object\<close> is in the
  builtins module.
\<close>

theorem py_bases_spec:
  fixes S :: infer_state and c :: nat
  defines "positional \<equiv>
    (case get_bases_arguments S c of
       None \<Rightarrow> []
     | Some args \<Rightarrow> map snd (filter (\<lambda>kv. fst kv = None) args))"
  defines "is_root \<equiv>
    py_name (classes S ! c) = ''object'' \<and> parent_context (classes S ! c) = BuiltinsModule"
  shows "(positional \<noteq> [] \<longrightarrow> py_bases S c = positional)
       \<and> (positional = [] \<and> is_root \<longrightarrow> py_bases S c = [])
       \<and> (positional = [] \<and> \<not> is_root \<longrightarrow>
            (\<exists>b. py_bases S c = [b] \<and> infer S b = builtins_object S))"
proof -
  have eq: "(\<lambda>(key, v). key = None) = (\<lambda>kv::string option \<times> lazy_value. fst kv = None)"
    by (simp add: fun_eq_iff)
  show ?thesis
    unfolding positional_def is_root_def py_bases_def eq
    by (cases "get_bases_arguments S c") (simp_all add: Let_def)
qed

theorem py_bases_spec_witness:
  "py_bases example_state 2 = [LazyTreeValue 1]
   \<and> py_bases example_state 0 = []
   \<and> (\<exists>b. py_bases example_state 8 = [b] \<and> infer example_state b = [TreeClass 0])
   \<and> (\<exists>b. py_bases example_state 1 = [b] \<and> infer example_state b = [TreeClass 0])"
  using py_bases_spec [of example_state 2] py_bases_spec [of example_state 0]
    py_bases_spec [of example_state 8] py_bases_spec [of example_state 1]
  by (simp add: example_state_def get_bases_arguments_def)

text \<open>
  What \<open>builtins_type\<close> does with the value sets it is handed: the empty value set when
  \<open>bases\<close> or \<open>dict\<close> is not empty, the classes of the first argument's values when both
  are.
\<close>

lemma builtins_type_spec:
  "(bases \<noteq> [] \<or> dicts \<noteq> [] \<longrightarrow> builtins_type py_class objects bases dicts = NO_VALUES)
   \<and> (bases = [] \<and> dicts = [] \<longrightarrow>
        set (builtins_type py_class objects bases dicts) = py_class ` set objects)"
  by (simp add: builtins_type_def ValueSet_def)

text \<open>
  C9, as amended. For every call of the patch with one to three arguments: when the
  \<open>bases\<close> or the \<open>dict\<close> argument infers to at least one value, the result is the empty
  value set, not the class of the first argument; when neither does, because the call
  has the first argument only or because what stands in their places infers to nothing,
  the result is the set of the classes of the first argument's values.
\<close>

theorem builtins_type_call_spec:
  assumes "args = object # rest" and "length rest \<le> 2"
  shows "((\<exists>a \<in> set rest. infer S a \<noteq> [])
            \<longrightarrow> builtins_type_call S py_class args = Some NO_VALUES)
       \<and> ((\<forall>a \<in> set rest. infer S a = [])
            \<longrightarrow> (\<exists>result. builtins_type_call S py_class args = Some result
                   \<and> set result = py_class ` set (infer S object)))"
proof (cases rest)
  case Nil
  with assms(1) show ?thesis
    using builtins_type_spec [of "[]" "[]" py_class "infer S object"]
    by (simp add: builtins_type_call_def type_clinic_def NO_VALUES_def)
next
  case (Cons b rest1)
  show ?thesis
  proof (cases rest1)
    case Nil
    with Cons assms(1) show ?thesis
      using builtins_type_spec [of "infer S b" "[]" py_class "infer S object"]
      by (simp add: builtins_type_call_def type_clinic_def NO_VALUES_def)
  next
    case inner: (Cons d rest2)
    with Cons assms(2) have "rest2 = []" by simp
    with inner Cons assms(1) show ?thesis
      using builtins_type_spec [of "infer S b" "infer S d" py_class "infer S object"]
      by (auto simp: builtins_type_call_def type_clinic_def NO_VALUES_def)
  qed
qed

theorem builtins_type_call_spec_witness:
  "builtins_type_call example_state example_class_of [LazyTreeValue 1, LazyTreeValue 2]
     = Some NO_VALUES
   \<and> builtins_type_call example_state example_class_of
       [LazyTreeValue 1, LazyTreeValue 30, LazyTreeValue 2] = Some NO_VALUES
   \<and> (\<exists>result. builtins_type_call example_state example_class_of [LazyTreeValue 1]
         = Some result \<and> set result = {Foreign 0})
   \<and> (\<exists>result. builtins_type_call example_state example_class_of
           [LazyTreeValue 1, LazyTreeValue 30] = Some result \<and> set result = {Foreign 0})"
proof -
  have infer: "infer example_state (LazyTreeValue 1) = [TreeClass 1]"
    "infer example_state (LazyTreeValue 2) = [TreeClass 2]"
    "infer example_state (LazyTreeValue 30) = []"
    by (simp_all add: example_state_def)
  from builtins_type_call_spec [of _ "LazyTreeValue 1" "[LazyTreeValue 2]" example_state
      example_class_of, OF refl]
    builtins_type_call_spec [of _ "LazyTreeValue 1" "[LazyTreeValue 30, LazyTreeValue 2]"
      example_state example_class_of, OF refl]
    builtins_type_call_spec [of _ "LazyTreeValue 1" "[]" example_state example_class_of, OF refl]
    builtins_type_call_spec [of _ "LazyTreeValue 1" "[LazyTreeValue 30]" example_state
      example_class_of, OF refl]
    infer
  show ?thesis by (simp add: example_class_of_def)
qed

text \<open>
  C9 as stated fails. The call \<open>type(A, undefined_name)\<close> has more than one argument, and
  its result is the class of the first argument, as for \<open>type(A)\<close>, and not the empty
  value set.
\<close>

theorem builtins_type_two_arguments_counterexample:
  "1 < length [LazyTreeValue 1, LazyTreeValue 30]
   \<and> builtins_type_call example_state example_class_of [LazyTreeValue 1, LazyTreeValue 30]
       = Some [Foreign 0]
   \<and> builtins_type_call example_state example_class_of [LazyTreeValue 1, LazyTreeValue 30]
       \<noteq> Some NO_VALUES
   \<and> builtins_type_call example_state example_class_of [LazyTreeValue 1, LazyTreeValue 30]
       = builtins_type_call example_state example_class_of [LazyTreeValue 1]"
  by (simp add: builtins_type_call_def type_clinic_def builtins_type_def NO_VALUES_def
      ValueSet_def example_state_def example_class_of_def)

text \<open>
  C8. For a partial object whose first unpacked argument is the positional callable, the
  reported signatures are those of the callable, each with its parameter list cut: the
  first \<open>k\<close> entries are dropped, \<open>k\<close> the number of the other positional arguments, and so
  is every parameter named by one of the keyword arguments. For \<open>(a, b, c)\<close> with \<open>(1,)\<close>
  and \<open>{c: 9}\<close> bound, what is left is \<open>(b,)\<close>.
\<close>

theorem partial_get_signatures_spec:
  assumes "args = (None, func) # bound"
  shows "map get_param_names (partial_get_signatures sigs S args) =
         map (\<lambda>s. filter (\<lambda>n. Some (string_name n) \<notin> fst ` set bound)
                    (drop (length (filter (\<lambda>kv. fst kv = None) bound)) (get_param_names s)))
             (concat (map sigs (infer S func)))"
  using assms by (simp add: partial_get_signatures_def count_arguments_eq comp_def)

theorem partial_get_signatures_spec_witness:
  "map get_param_names
     (partial_get_signatures example_signatures example_state example_partial_arguments)
   = [[ParamName ''b'']]"
  using partial_get_signatures_spec [of example_partial_arguments
      "LazyKnownValues [Foreign 5]"
      "[(None, LazyKnownValues [Foreign 1]), (Some ''c'', LazyKnownValues [Foreign 9])]"
      example_signatures example_state]
  by (simp add: example_partial_arguments_def example_signatures_def)

subsection \<open>The superclass proxy\<close>

lemma filters_of_objects_concat:
  "filters_of_objects get_filters objs = concat (map get_filters objs)"
  by (induction objs) simp_all

text \<open>
  C7, as amended. Lookup through the filters of the superclass proxy walks, for every
  declared base of the class of the wrapped instance and in declaration order, the
  filters of the objects that executing the base gives; the bases after the first
  contribute their filters as the first does.
\<close>

theorem super_get_filters_all_bases:
  "super_get_filters S py_class execute get_filters self =
     concat (map (base_filters S execute get_filters) (super_get_bases S py_class self))"
proof -
  have "filters_of_bases S execute get_filters bs =
          concat (map (base_filters S execute get_filters) bs)" for bs
    by (induction bs) (simp_all add: base_filters_def filters_of_objects_concat)
  then show ?thesis by (simp add: super_get_filters_def)
qed

text \<open>
  C7 as stated fails. For an instance of \<open>class E(A, M)\<close> the proxy's filters are not
  those of the first base \<open>A\<close> alone: the filter of \<open>M\<close>, which is not on the method
  resolution order of \<open>A\<close>, is among them.
\<close>

theorem super_get_filters_first_base_counterexample:
  "super_get_bases example_state example_py_class (SuperInstance (Foreign 107))
     = [LazyTreeValue 1, LazyTreeValue 3]
   \<and> super_get_filters example_state example_py_class example_execute example_get_filters
        (SuperInstance (Foreign 107))
     \<noteq> base_filters example_state example_execute example_get_filters (LazyTreeValue 1)
   \<and> FilterOf (TreeClass 3)
       \<in> set (super_get_filters example_state example_py_class example_execute
                 example_get_filters (SuperInstance (Foreign 107)))
   \<and> FilterOf (TreeClass 3)
       \<notin> set (base_filters example_state example_execute example_get_filters (LazyTreeValue 1))"
  by (simp add: super_get_filters_def super_get_bases_def base_filters_def
      example_state_def example_py_class_def example_execute_def example_get_filters_def
      py_bases_def get_bases_arguments_def execute_with_values_def from_sets_def)

subsection \<open>Flow branches\<close>

text \<open>
  When no child of the flow node starts after the inner node, as for every node of the
  last child, the loop ends without a return and the result is the integer \<open>0\<close>.
\<close>

lemma flow_children_loop_falls_through:
  assumes "\<forall>child \<in> set cs. \<not> pos_less start (start_pos (attrs_of child))"
    and "flow_children_loop start cs keyword = Inr r"
  shows "r = PyInt 0"
  using assms
proof (induction cs arbitrary: keyword)
  case Nil
  then show ?case by simp
next
  case (Cons child cs)
  then show ?case by (auto split: sum.splits)
qed

text \<open>
  C6 at a concrete input. In \<open>if x: y else: z\<close> the node \<open>z\<close> lies in the branch that
  \<open>else\<close> introduces, and the function returns the integer \<open>0\<close> for it; for \<open>y\<close>, in the
  first branch, it returns the leaf of the keyword \<open>if\<close>.
\<close>

theorem get_flow_branch_keyword_last_branch:
  "get_flow_branch_keyword example_if example_z = Inr (PyInt 0)
   \<and> get_flow_branch_keyword example_if example_y
       = Inr (Keyword (flow_leaf ''keyword'' ''if'' (1, 0) (1, 2)))"
  by (simp add: get_flow_branch_keyword_def example_if_def example_z_def example_y_def
      flow_leaf_def flow_node_def pos_le_def in_flow_keywords_def FLOW_KEYWORDS_def
      string_comparison_def)

subsection \<open>The class filter\<close>

lemma equals_origin_scope_from_ancestors:
  "equals_origin_scope_from f node = (parser_scope f \<in> set (ancestors node))"
proof (induction f node rule: equals_origin_scope_from.induct)
  case (1 f i parent)
  show ?case
  proof (cases parent)
    case None
    then show ?thesis by auto
  next
    case (Some p)
    with "1.IH" [of p] show ?thesis by auto
  qed
qed

lemma equals_origin_scope_inside: "equals_origin_scope f = origin_inside f"
  by (simp add: equals_origin_scope_def origin_inside_def equals_origin_scope_from_ancestors
      split: option.splits)

lemma access_possible_mangling:
  "access_possible f name from_instance =
     (\<not> hidden_annotation name from_instance
      \<and> (\<not> (prefix ''__'' (name_value name) \<and> \<not> suffix ''__'' (name_value name))
         \<or> origin_inside f))"
  by (auto simp: access_possible_def hidden_annotation_def equals_origin_scope_inside
      split: option.splits definition_node.splits definition_child.splits)

lemma secret_names:
  "prefix ''__'' ''__secret''" "\<not> suffix ''__'' ''__secret''" "suffix ''__'' ''__secret__''"
  by (simp_all add: suffix_def)

text \<open>
  C5, as amended. Take a name that the parent filter lets through. The class filter keeps
  it exactly when the \<open>ClassVar\<close> rule does not hide it (on class access the rule hides
  a name defined by an annotated assignment whose annotation does not contain
  \<open>ClassVar\<close>, whatever the name and the origin) and, if the name starts with two
  underscores and does not end with two, the origin scope lies inside the class body: the
  class's scope node is the origin scope or one of its ancestors. So for the names
  \<open>__secret\<close> and \<open>__secret__\<close>, when the rule hides neither, as with plain assignments:
  with the origin scope outside the class \<open>__secret\<close> is left out and \<open>__secret__\<close> stays
  in, and with the origin scope inside the class body, itself or a scope nested in it,
  both stay in.
\<close>

theorem class_filter_name_mangling:
  assumes "name \<in> set (super_filter names)"
  shows "(name \<in> set (class_filter_names super_filter f names from_instance)
            \<longleftrightarrow> \<not> hidden_annotation name from_instance
                \<and> (prefix ''__'' (name_value name) \<and> \<not> suffix ''__'' (name_value name)
                     \<longrightarrow> origin_inside f))
       \<and> (name_value name = ''__secret'' \<and> \<not> origin_inside f
            \<longrightarrow> name \<notin> set (class_filter_names super_filter f names from_instance))
       \<and> (name_value name = ''__secret__'' \<and> \<not> hidden_annotation name from_instance
            \<longrightarrow> name \<in> set (class_filter_names super_filter f names from_instance))
       \<and> (name_value name \<in> {''__secret'', ''__secret__''} \<and> origin_inside f
            \<and> \<not> hidden_annotation name from_instance
            \<longrightarrow> name \<in> set (class_filter_names super_filter f names from_instance))
       \<and> (hidden_annotation name from_instance
            \<longrightarrow> name \<notin> set (class_filter_names super_filter f names from_instance))"
  using assms secret_names
  by (auto simp: class_filter_names_def access_possible_mangling)

theorem class_filter_name_mangling_witness:
  "example_secret \<notin> set (class_filter_names (\<lambda>names. names)
       (example_filter (Some example_module_scope)) example_names False)
   \<and> example_dunder \<in> set (class_filter_names (\<lambda>names. names)
       (example_filter (Some example_module_scope)) example_names False)
   \<and> example_secret \<in> set (class_filter_names (\<lambda>names. names)
       (example_filter (Some example_method_scope)) example_names False)
   \<and> example_dunder \<in> set (class_filter_names (\<lambda>names. names)
       (example_filter (Some example_method_scope)) example_names False)"
proof -
  have outside: "\<not> origin_inside (example_filter (Some example_module_scope))"
    and inside: "origin_inside (example_filter (Some example_method_scope))"
    by (simp_all add: origin_inside_def example_filter_def example_module_scope_def
        example_method_scope_def example_class_scope_def)
  have visible: "\<not> hidden_annotation example_secret False"
    "\<not> hidden_annotation example_dunder False"
    by (simp_all add: hidden_annotation_def example_secret_def example_dunder_def)
  have names: "name_value example_secret = ''__secret''"
    "name_value example_dunder = ''__secret__''"
    by (simp_all add: example_secret_def example_dunder_def)
  have mem: "example_secret \<in> set example_names" "example_dunder \<in> set example_names"
    by (simp_all add: example_names_def)
  note inst = class_filter_name_mangling
    [where super_filter = "\<lambda>names. names" and names = example_names and from_instance = False]
  from inst [where name = example_secret and f = "example_filter (Some example_module_scope)",
      OF mem(1)]
    inst [where name = example_dunder and f = "example_filter (Some example_module_scope)",
      OF mem(2)]
    inst [where name = example_secret and f = "example_filter (Some example_method_scope)",
      OF mem(1)]
    inst [where name = example_dunder and f = "example_filter (Some example_method_scope)",
      OF mem(2)]
    outside inside visible names secret_names
  show ?thesis by simp
qed

text \<open>
  C5 as stated fails. With \<open>__secret: int\<close> and \<open>__secret__: int\<close> in the class body and
  class access, the filter with the origin scope inside the class body holds neither
  name, and the one with the origin scope outside does not hold \<open>__secret__\<close>.
\<close>

theorem class_filter_annotated_counterexample:
  "origin_inside (example_filter (Some example_method_scope))
   \<and> map name_value example_annotated_names = [''__secret'', ''__secret__'']
   \<and> class_filter_names (\<lambda>names. names) (example_filter (Some example_method_scope))
        example_annotated_names False = []
   \<and> example_annotated_dunder
       \<notin> set (class_filter_names (\<lambda>names. names) (example_filter (Some example_module_scope))
                example_annotated_names False)"
proof -
  have no_marker: "\<not> sublist ''ClassVar'' ''int''" by code_simp
  then have hidden: "hidden_annotation example_annotated_secret False"
    "hidden_annotation example_annotated_dunder False"
    by (simp_all add: hidden_annotation_def example_annotated_secret_def
        example_annotated_dunder_def)
  have inside: "origin_inside (example_filter (Some example_method_scope))"
    by (simp add: origin_inside_def example_filter_def example_module_scope_def
        example_method_scope_def example_class_scope_def)
  have names: "map name_value example_annotated_names = [''__secret'', ''__secret__'']"
    by (simp add: example_annotated_names_def example_annotated_secret_def
        example_annotated_dunder_def)
  from hidden inside names show ?thesis
    by (simp add: class_filter_names_def access_possible_mangling example_annotated_names_def)
qed

subsection \<open>Executable nodes\<close>

lemma executable_children_admissible:
  shows "get_executable_nodes node last_added = Inr result
           \<Longrightarrow> \<forall>n \<in> set result. admissible_name n"
  and "executable_children cs last_added acc = Inr result
         \<Longrightarrow> \<forall>n \<in> set acc. admissible_name n \<Longrightarrow> \<forall>n \<in> set result. admissible_name n"
proof (induction node last_added and cs last_added acc arbitrary: result and result
    rule: get_executable_nodes_executable_children.induct)
  case (1 node last_added)
  let ?ty = "node_type (attrs_of node)"
  show ?case
  proof (cases "?ty = ''name''")
    case True
    with "1.prems" show ?thesis
      by (subst (asm) get_executable_nodes.simps(1))
        (auto simp: admissible_name_def Let_def split: if_splits option.splits)
  next
    case notname: False
    show ?thesis
    proof (cases node)
      case (Leaf a v)
      with "1.prems" notname show ?thesis
        by (subst (asm) get_executable_nodes.simps(1)) (auto simp: Let_def split: if_splits)
    next
      case (Node a cs)
      have self_ok: "admissible_name node" using notname by (simp add: admissible_name_def)
      show ?thesis
      proof (cases "?ty = ''expr_stmt''")
        case True
        with "1.prems" notname Node
        have "executable_children cs True [node] = Inr result"
          by (subst (asm) get_executable_nodes.simps(1)) (simp add: Let_def)
        with "1.IH"(1) [OF refl notname True Node] self_ok show ?thesis by simp
      next
        case notexpr: False
        show ?thesis
        proof (cases "?ty = ''decorator''")
          case True
          show ?thesis
          proof (cases "2 \<le> length cs \<and> eq_str (cs ! (length cs - 2)) '')''
                        \<and> 3 \<le> length cs \<and> \<not> eq_str (cs ! (length cs - 3)) ''(''")
            case rec: True
            with "1.prems" notname notexpr True Node
            have "get_executable_nodes (cs ! (length cs - 3)) False = Inr result"
              by (subst (asm) get_executable_nodes.simps(1)) (simp add: Let_def)
            with "1.IH"(2) [OF refl notname notexpr True Node] rec show ?thesis by blast
          next
            case False
            with "1.prems" notname notexpr True Node have "result = []"
              by (subst (asm) get_executable_nodes.simps(1)) (auto simp: Let_def split: if_splits)
            then show ?thesis by simp
          qed
        next
          case notdeco: False
          with "1.prems" notname notexpr Node
          have "executable_children cs last_added
                  (if ?ty \<in> EXECUTE_NODES \<and> \<not> last_added then [node] else []) = Inr result"
            by (subst (asm) get_executable_nodes.simps(1)) (simp add: Let_def)
          with "1.IH"(3) [OF refl notname notexpr notdeco Node] self_ok show ?thesis by simp
        qed
      qed
    qed
  qed
next
  case (2 last_added result)
  then show ?case by simp
next
  case (3 child rest last_added acc)
  from "3.prems"(1) obtain r where r: "get_executable_nodes child last_added = Inr r"
    and rest: "executable_children rest last_added (acc @ r) = Inr result"
    by (auto split: sum.splits)
  from "3.IH"(1) [OF r] have "\<forall>n \<in> set r. admissible_name n" .
  with "3.prems"(2) have "\<forall>n \<in> set (acc @ r). admissible_name n" by auto
  with "3.IH"(2) [OF r rest] show ?case by simp
qed

text \<open>
  C10. Whatever the tree, a name node in the list that \<open>get_executable_nodes\<close> returns
  has no parent of type \<open>param\<close>, and the leaf after it is not \<open>=\<close>.
\<close>

theorem get_executable_nodes_names:
  assumes "get_executable_nodes node last_added = Inr result"
    and "n \<in> set result" and "node_type (attrs_of n) = ''name''"
  shows "parent_type (attrs_of n) \<noteq> Some ''param'' \<and> \<not> next_leaf_eq n ''=''"
  using executable_children_admissible(1) [OF assms(1)] assms(2,3)
  by (auto simp: admissible_name_def)

theorem get_executable_nodes_names_witness:
  "get_executable_nodes example_funcdef False =
     Inr [example_funcdef,
          exec_leaf ''name'' ''f'' ''funcdef'' (Some (''operator'', ''('')),
          exec_node ''expr_stmt'' ''simple_stmt''
            [exec_leaf ''name'' ''x'' ''expr_stmt'' (Some (''operator'', ''='')),
             exec_leaf ''operator'' ''='' ''expr_stmt'' (Some (''name'', ''p'')),
             exec_leaf ''name'' ''p'' ''expr_stmt'' None]]
   \<and> parent_type (attrs_of (exec_leaf ''name'' ''f'' ''funcdef'' (Some (''operator'', ''(''))))
       \<noteq> Some ''param''
   \<and> \<not> next_leaf_eq (exec_leaf ''name'' ''f'' ''funcdef'' (Some (''operator'', ''(''))) ''=''"
proof -
  have run: "get_executable_nodes example_funcdef False =
     Inr [example_funcdef,
          exec_leaf ''name'' ''f'' ''funcdef'' (Some (''operator'', ''('')),
          exec_node ''expr_stmt'' ''simple_stmt''
            [exec_leaf ''name'' ''x'' ''expr_stmt'' (Some (''operator'', ''='')),
             exec_leaf ''operator'' ''='' ''expr_stmt'' (Some (''name'', ''p'')),
             exec_leaf ''name'' ''p'' ''expr_stmt'' None]]"
    by (simp add: example_funcdef_def exec_leaf_def exec_node_def get_executable_nodes.simps Let_def
        EXECUTE_NODES_def next_leaf_eq_def string_comparison_def)
  have name: "node_type (attrs_of (exec_leaf ''name'' ''f'' ''funcdef'' (Some (''operator'', ''(''))))
                = ''name''"
    by (simp add: exec_leaf_def)
  from get_executable_nodes_names [OF run _ name] run show ?thesis by simp
qed

subsection \<open>The method resolution order\<close>

lemma mro_extend_append: "\<exists>ys. mro_extend mro lst = mro @ ys"
proof (induction lst arbitrary: mro)
  case Nil
  show ?case by simp
next
  case (Cons x lst)
  from Cons.IH [of "if x \<notin> set mro then mro @ [x] else mro"] show ?case
    by (auto split: if_splits)
qed

lemma mro_extend_distinct: "distinct mro \<Longrightarrow> distinct (mro_extend mro lst)"
  by (induction lst arbitrary: mro) simp_all

lemma mro_values_extends:
  "mro_values S rec vs mro memo = Some (mro', memo')
     \<Longrightarrow> (\<exists>ys. mro' = mro @ ys) \<and> (distinct mro \<longrightarrow> distinct mro')"
proof (induction S rec vs mro memo rule: mro_values.induct)
  case (1 S rec mro memo)
  then show ?case by simp
next
  case (2 S rec f rest mro memo)
  show ?case
  proof (cases "foreign_mro S f")
    case None
    with 2 show ?thesis by simp
  next
    case (Some lst)
    with "2.prems" have run: "mro_values S rec rest (mro_extend mro lst) memo = Some (mro', memo')"
      by simp
    from "2.IH"(2) [OF Some run] mro_extend_append [of mro lst] mro_extend_distinct [of mro lst]
    show ?thesis by auto
  qed
next
  case (3 S rec d rest mro memo)
  from "3.prems" obtain lst memo1 where call: "rec memo d = Some (lst, memo1)"
    and run: "mro_values S rec rest (mro_extend mro lst) memo1 = Some (mro', memo')"
    by (auto split: option.splits)
  from "3.IH" [OF call refl run] mro_extend_append [of mro lst] mro_extend_distinct [of mro lst]
  show ?case by auto
qed

lemma mro_bases_extends:
  "mro_bases S rec bases mro memo = Some (mro', memo')
     \<Longrightarrow> (\<exists>ys. mro' = mro @ ys) \<and> (distinct mro \<longrightarrow> distinct mro')"
proof (induction bases arbitrary: mro memo)
  case Nil
  then show ?case by simp
next
  case (Cons b bases)
  from Cons.prems obtain mro1 memo1
    where step: "mro_values S rec (infer S b) mro memo = Some (mro1, memo1)"
      and run: "mro_bases S rec bases mro1 memo1 = Some (mro', memo')"
    by (auto split: option.splits)
  from mro_values_extends [OF step] Cons.IH [OF run] show ?case by auto
qed

lemma mro_body_head:
  assumes "mro_body S rec memo c = Some (lst, memo')"
  shows "lst \<noteq> [] \<and> hd lst = TreeClass c \<and> distinct lst"
  using mro_bases_extends [OF assms [unfolded mro_body_def]] by auto

lemma mro_values_invariant:
  assumes rec: "keeps_invariant S rec"
  shows "mro_invariant S memo \<Longrightarrow> mro_values S rec vs mro memo = Some (mro', memo')
     \<Longrightarrow> mro_invariant S memo' \<and> (\<forall>x. (memo' x = Some Sentinel) = (memo x = Some Sentinel))"
proof (induction vs arbitrary: mro memo)
  case Nil
  then show ?case by simp
next
  case (Cons v vs)
  show ?case
  proof (cases v)
    case (Foreign f)
    with Cons.prems Cons.IH show ?thesis
      by (cases "foreign_mro S f") auto
  next
    case (TreeClass d)
    with Cons.prems(2) obtain lst memo1 where call: "rec memo d = Some (lst, memo1)"
      and run: "mro_values S rec vs (mro_extend mro lst) memo1 = Some (mro', memo')"
      by (auto split: option.splits)
    from rec Cons.prems(1) call
    have inv1: "mro_invariant S memo1"
      and same1: "\<forall>x. (memo1 x = Some Sentinel) = (memo x = Some Sentinel)"
      unfolding keeps_invariant_def by blast+
    from Cons.IH [OF inv1 run] same1 show ?thesis by simp
  qed
qed

lemma mro_bases_invariant:
  assumes rec: "keeps_invariant S rec"
  shows "mro_invariant S memo \<Longrightarrow> mro_bases S rec bases mro memo = Some (mro', memo')
     \<Longrightarrow> mro_invariant S memo' \<and> (\<forall>x. (memo' x = Some Sentinel) = (memo x = Some Sentinel))"
proof (induction bases arbitrary: mro memo)
  case Nil
  then show ?case by simp
next
  case (Cons b bases)
  from Cons.prems(2) obtain mro1 memo1
    where step: "mro_values S rec (infer S b) mro memo = Some (mro1, memo1)"
      and run: "mro_bases S rec bases mro1 memo1 = Some (mro', memo')"
    by (auto split: option.splits)
  from mro_values_invariant [OF rec Cons.prems(1) step] Cons.IH [OF _ run]
  show ?case by simp
qed

text \<open>The list of a class whose only base is a known root.\<close>

lemma mro_body_implicit_base:
  assumes rec: "keeps_invariant S rec"
    and inv: "mro_invariant S memo"
    and bases: "py_bases S c = [LazyKnownValues [TreeClass r]]"
    and root: "py_bases S r = []"
    and run: "mro_body S rec memo c = Some (lst, memo')"
  shows "lst = [TreeClass c, TreeClass r]"
proof -
  from bases root have neq: "r \<noteq> c" by auto
  from run bases obtain lst_r where call: "rec memo r = Some (lst_r, memo')"
    and lst: "lst = mro_extend [TreeClass c] lst_r"
    by (auto simp: mro_body_def split: option.splits)
  from inv root have "memo r \<noteq> Some Sentinel" by (simp add: mro_invariant_def)
  with rec inv call have "mro_entry_ok S r lst_r"
    unfolding keeps_invariant_def by blast
  with root have "lst_r = [TreeClass r]" by (simp add: mro_entry_ok_def)
  with lst neq show ?thesis by simp
qed

lemma generator_cache_keeps_invariant:
  assumes rec: "keeps_invariant S rec"
  shows "keeps_invariant S (generator_cache (mro_body S rec))"
  unfolding keeps_invariant_def
proof (intro allI impI)
  fix memo d lst memo'
  assume inv: "mro_invariant S memo"
    and call: "generator_cache (mro_body S rec) memo d = Some (lst, memo')"
  show "mro_invariant S memo'
        \<and> (\<forall>x. (memo' x = Some Sentinel) = (memo x = Some Sentinel))
        \<and> (memo d \<noteq> Some Sentinel \<longrightarrow> mro_entry_ok S d lst)"
  proof (cases "memo d")
    case (Some entry)
    show ?thesis
    proof (cases entry)
      case Sentinel
      with Some call inv show ?thesis by (simp add: generator_cache_def)
    next
      case (Cached l)
      with Some call inv show ?thesis by (auto simp: generator_cache_def mro_invariant_def)
    qed
  next
    case None
    let ?memo1 = "memo(d \<mapsto> Sentinel)"
    from None call obtain memo2 where body: "mro_body S rec ?memo1 d = Some (lst, memo2)"
      and memo': "memo' = memo2(d \<mapsto> Cached lst)"
      by (auto simp: generator_cache_def split: option.splits)
    from mro_body_head [OF body]
    have head: "lst \<noteq> []" "hd lst = TreeClass d" "distinct lst" by simp_all
    show ?thesis
    proof (cases "py_bases S d = []")
      case True
      with body have lst: "lst = [TreeClass d]" and memo2: "memo2 = ?memo1"
        by (simp_all add: mro_body_def)
      have entry: "mro_entry_ok S d lst" using lst True by (simp add: mro_entry_ok_def)
      from inv entry memo' memo2 None show ?thesis
        by (auto simp: mro_invariant_def)
    next
      case False
      with inv have inv1: "mro_invariant S ?memo1"
        by (auto simp: mro_invariant_def)
      from mro_bases_invariant [OF rec inv1 body [unfolded mro_body_def]]
      have inv2: "mro_invariant S memo2"
        and same: "\<forall>x. (memo2 x = Some Sentinel) = (?memo1 x = Some Sentinel)"
        by simp_all
      have last: "last lst = TreeClass r"
        if "py_bases S d = [LazyKnownValues [TreeClass r]]" "py_bases S r = []" for r
        using mro_body_implicit_base [OF rec inv1 that body] by simp
      from head False last have entry: "mro_entry_ok S d lst"
        by (simp add: mro_entry_ok_def)
      have "mro_invariant S memo'"
        unfolding mro_invariant_def
      proof (intro conjI allI impI)
        fix x l assume "memo' x = Some (Cached l)"
        with memo' entry inv2 show "mro_entry_ok S x l"
          by (auto simp: mro_invariant_def split: if_splits)
      next
        fix x assume root: "py_bases S x = []"
        with inv have "memo x \<noteq> Some Sentinel" by (simp add: mro_invariant_def)
        with same memo' show "memo' x \<noteq> Some Sentinel" by (auto split: if_splits)
      qed
      moreover have "\<forall>x. (memo' x = Some Sentinel) = (memo x = Some Sentinel)"
        using same memo' None by (auto split: if_splits)
      ultimately show ?thesis using entry by simp
    qed
  qed
qed

lemma py_mro_keeps_invariant: "keeps_invariant S (py_mro fuel S)"
proof (induction fuel)
  case 0
  show ?case by (simp add: keeps_invariant_def)
next
  case (Suc fuel)
  from generator_cache_keeps_invariant [OF Suc] show ?case by simp
qed

subsection \<open>Termination\<close>

lemma finite_uncached: "finite (uncached S memo)"
  by (simp add: uncached_def)

lemma uncached_mono: "dom memo \<subseteq> dom memo' \<Longrightarrow> card (uncached S memo') \<le> card (uncached S memo)"
  by (rule card_mono [OF finite_uncached]) (auto simp: uncached_def)

lemma uncached_update:
  assumes "d < length (classes S)" and "memo d = None"
  shows "card (uncached S (memo(d \<mapsto> x))) < card (uncached S memo)"
proof -
  have "uncached S (memo(d \<mapsto> x)) = uncached S memo - {d}"
    by (auto simp: uncached_def)
  moreover from assms have "d \<in> uncached S memo" by (simp add: uncached_def)
  ultimately show ?thesis
    using card_Diff1_less [OF finite_uncached, of d S memo] by simp
qed

lemma uncached_le_classes: "card (uncached S memo) \<le> length (classes S)"
proof -
  have "uncached S memo \<subseteq> {..<length (classes S)}" by (auto simp: uncached_def)
  from card_mono [OF _ this] show ?thesis by simp
qed

lemma wf_state_bases:
  "wf_state S \<Longrightarrow> c < length (classes S) \<Longrightarrow> b \<in> set (py_bases S c)
     \<Longrightarrow> values_in_table S (infer S b)"
  by (auto simp: wf_state_def values_in_table_def)

lemma mro_values_returns:
  assumes rec: "returns_within S rec k"
  shows "card (uncached S memo) < k \<Longrightarrow> values_in_table S vs
     \<Longrightarrow> \<exists>mro' memo'. mro_values S rec vs mro memo = Some (mro', memo') \<and> dom memo \<subseteq> dom memo'"
proof (induction vs arbitrary: mro memo)
  case Nil
  show ?case by simp
next
  case (Cons v vs)
  from Cons.prems(2) have rest: "values_in_table S vs" by (simp add: values_in_table_def)
  show ?case
  proof (cases v)
    case (Foreign f)
    with Cons.IH [OF Cons.prems(1) rest] show ?thesis
      by (cases "foreign_mro S f") simp_all
  next
    case (TreeClass d)
    with Cons.prems(2) have "d < length (classes S)" by (simp add: values_in_table_def)
    with rec Cons.prems(1) obtain lst memo1 where call: "rec memo d = Some (lst, memo1)"
      and dom1: "dom memo \<subseteq> dom memo1"
      unfolding returns_within_def by blast
    from uncached_mono [OF dom1, of S] Cons.prems(1) have "card (uncached S memo1) < k" by simp
    from Cons.IH [OF this rest, of "mro_extend mro lst"] call dom1 TreeClass
    show ?thesis by auto
  qed
qed

lemma mro_bases_returns:
  assumes rec: "returns_within S rec k"
  shows "card (uncached S memo) < k \<Longrightarrow> \<forall>b \<in> set bases. values_in_table S (infer S b)
     \<Longrightarrow> \<exists>mro' memo'. mro_bases S rec bases mro memo = Some (mro', memo') \<and> dom memo \<subseteq> dom memo'"
proof (induction bases arbitrary: mro memo)
  case Nil
  show ?case by simp
next
  case (Cons b bases)
  from Cons.prems(2) have here: "values_in_table S (infer S b)"
    and rest: "\<forall>b \<in> set bases. values_in_table S (infer S b)" by simp_all
  from mro_values_returns [OF rec Cons.prems(1) here, of mro]
  obtain mro1 memo1 where step: "mro_values S rec (infer S b) mro memo = Some (mro1, memo1)"
    and dom1: "dom memo \<subseteq> dom memo1" by blast
  from uncached_mono [OF dom1, of S] Cons.prems(1) have "card (uncached S memo1) < k" by simp
  from Cons.IH [OF this rest, of mro1] step dom1 show ?case by auto
qed

lemma generator_cache_returns:
  assumes wf: "wf_state S" and rec: "returns_within S rec k"
  shows "returns_within S (generator_cache (mro_body S rec)) (Suc k)"
  unfolding returns_within_def
proof (intro allI impI)
  fix memo :: mro_cache and d
  assume d: "d < length (classes S)" and card: "card (uncached S memo) < Suc k"
  show "\<exists>r memo'. generator_cache (mro_body S rec) memo d = Some (r, memo') \<and> dom memo \<subseteq> dom memo'"
  proof (cases "memo d")
    case (Some entry)
    then show ?thesis by (cases entry) (simp_all add: generator_cache_def)
  next
    case None
    from uncached_update [where memo = memo and d = d and S = S and x = Sentinel, OF d None] card
    have card1: "card (uncached S (memo(d \<mapsto> Sentinel))) < k" by simp
    from wf d have "\<forall>b \<in> set (py_bases S d). values_in_table S (infer S b)"
      by (simp add: wf_state_bases)
    from mro_bases_returns [OF rec card1 this, of "[TreeClass d]"]
    obtain lst memo2 where "mro_body S rec (memo(d \<mapsto> Sentinel)) d = Some (lst, memo2)"
      and "dom (memo(d \<mapsto> Sentinel)) \<subseteq> dom memo2"
      unfolding mro_body_def by blast
    with None show ?thesis by (auto simp: generator_cache_def)
  qed
qed

lemma py_mro_returns: "wf_state S \<Longrightarrow> returns_within S (py_mro fuel S) fuel"
proof (induction fuel)
  case 0
  show ?case by (simp add: returns_within_def)
next
  case (Suc fuel)
  from generator_cache_returns [OF Suc.prems Suc.IH [OF Suc.prems]] show ?case by simp
qed

lemma mro_of_session_invariant:
  "mro_of_session S memo \<Longrightarrow> mro_invariant S memo \<and> (\<forall>d. memo d \<noteq> Some Sentinel)"
  unfolding mro_of_session_def mro_invariant_def
  by (metis mro_entry.simps(4,5) option.simps(5))

lemma py_mro_session:
  assumes wf: "wf_state S" and c: "c < length (classes S)"
    and session: "mro_of_session S memo" and fuel: "length (classes S) < fuel"
  shows "\<exists>lst memo'. py_mro fuel S memo c = Some (lst, memo')
           \<and> mro_entry_ok S c lst \<and> mro_of_session S memo'"
proof -
  from uncached_le_classes [of S memo] fuel have "card (uncached S memo) < fuel" by simp
  with py_mro_returns [OF wf, of fuel] c
  obtain lst memo' where run: "py_mro fuel S memo c = Some (lst, memo')"
    unfolding returns_within_def by blast
  from mro_of_session_invariant [OF session]
  have inv: "mro_invariant S memo" and quiet: "\<forall>d. memo d \<noteq> Some Sentinel" by simp_all
  from py_mro_keeps_invariant [of S fuel] inv run quiet
  have inv': "mro_invariant S memo'"
    and same: "\<forall>x. (memo' x = Some Sentinel) = (memo x = Some Sentinel)"
    and entry: "mro_entry_ok S c lst"
    unfolding keeps_invariant_def by blast+
  have "mro_of_session S memo'"
    unfolding mro_of_session_def
  proof
    fix d
    show "case memo' d of None \<Rightarrow> True | Some Sentinel \<Rightarrow> False
          | Some (Cached lst) \<Rightarrow> mro_entry_ok S d lst"
    proof (cases "memo' d")
      case None
      then show ?thesis by simp
    next
      case (Some e)
      show ?thesis
      proof (cases e)
        case Sentinel
        with Some same quiet show ?thesis by simp
      next
        case (Cached l)
        with Some inv' show ?thesis by (simp add: mro_invariant_def)
      qed
    qed
  qed
  with run entry show ?thesis by blast
qed

lemma no_explicit_bases_py_bases:
  assumes root: "builtin_root S r" and c: "c < length (classes S)"
    and implicit: "no_explicit_bases S c"
  shows "(c = r \<longrightarrow> py_bases S c = [])
       \<and> (c \<noteq> r \<longrightarrow> py_bases S c = [LazyKnownValues [TreeClass r]])"
proof -
  from implicit have none: "(case get_bases_arguments S c of
        None \<Rightarrow> None
      | Some args \<Rightarrow>
          (let lst = map snd (filter (\<lambda>(key, v). key = None) args)
           in if lst \<noteq> [] then Some lst else None)) = None"
    by (auto simp: no_explicit_bases_def split: option.splits)
  have bases: "py_bases S c =
      (if py_name (classes S ! c) = ''object'' \<and> parent_context (classes S ! c) = BuiltinsModule
       then [] else [LazyKnownValues (builtins_object S)])"
    unfolding py_bases_def none by simp
  from root c have "(py_name (classes S ! c) = ''object''
      \<and> parent_context (classes S ! c) = BuiltinsModule) = (c = r)"
    by (simp add: builtin_root_def)
  then have "py_bases S c = (if c = r then [] else [LazyKnownValues (builtins_object S)])"
    using bases by simp
  moreover from root have "builtins_object S = [TreeClass r]"
    by (simp add: builtin_root_def)
  ultimately show ?thesis by (cases "c = r") simp_all
qed

lemma py_mro_stores:
  assumes "py_mro fuel S memo c = Some (lst, memo')" and "memo c \<noteq> Some Sentinel"
  shows "memo' c = Some (Cached lst)"
proof (cases fuel)
  case 0
  with assms show ?thesis by simp
next
  case (Suc n)
  show ?thesis
  proof (cases "memo c")
    case None
    with assms Suc show ?thesis
      by (auto simp: generator_cache_def split: option.splits)
  next
    case (Some entry)
    with assms Suc show ?thesis
      by (cases entry) (auto simp: generator_cache_def)
  qed
qed

lemma py_mro_cached:
  "memo c = Some (Cached lst) \<Longrightarrow> py_mro (Suc fuel) S memo c = Some (lst, memo)"
  by (simp add: generator_cache_def)

text \<open>
  C1. In a session whose inference state is well formed, with a memo as the session leaves
  it between queries (the empty memo of a new session is one) and a depth of nested calls
  above the number of classes allowed, \<open>py__mro__()\<close> of every class \<open>C\<close> of the table
  returns, and the list it returns begins with \<open>C\<close> and contains no class twice; when
  \<open>C\<close> has no explicit bases, the list ends with the universal root class, the class
  that \<open>object\<close> of the builtins module resolves to. The memo it leaves is again one of
  the session, and the same call on it returns the same list.
\<close>

theorem py_mro_starts_with_class:
  assumes "wf_state S" and "c < length (classes S)"
    and "mro_of_session S memo" and "length (classes S) < fuel"
  shows "\<exists>lst memo'. py_mro fuel S memo c = Some (lst, memo')
           \<and> lst \<noteq> [] \<and> hd lst = TreeClass c \<and> distinct lst
           \<and> (\<forall>r. builtin_root S r \<and> no_explicit_bases S c \<longrightarrow> last lst = TreeClass r)
           \<and> mro_of_session S memo' \<and> py_mro fuel S memo' c = Some (lst, memo')"
proof -
  from py_mro_session [OF assms] obtain lst memo'
    where run: "py_mro fuel S memo c = Some (lst, memo')" and entry: "mro_entry_ok S c lst"
      and session: "mro_of_session S memo'"
    by blast
  from mro_of_session_invariant [OF assms(3)] have "memo c \<noteq> Some Sentinel" by simp
  from py_mro_stores [OF run this] have stored: "memo' c = Some (Cached lst)" .
  from assms(4) obtain n where "fuel = Suc n" by (cases fuel) simp_all
  with py_mro_cached [where memo = memo' and c = c and lst = lst, OF stored]
  have again: "py_mro fuel S memo' c = Some (lst, memo')"
    by simp
  have "last lst = TreeClass r" if root: "builtin_root S r" and implicit: "no_explicit_bases S c" for r
  proof -
    from root have r: "r < length (classes S)" and "no_explicit_bases S r"
      by (simp_all add: builtin_root_def)
    with no_explicit_bases_py_bases [OF root r] have root_bases: "py_bases S r = []" by simp
    show ?thesis
    proof (cases "c = r")
      case True
      with entry root_bases show ?thesis by (simp add: mro_entry_ok_def)
    next
      case False
      with no_explicit_bases_py_bases [OF root assms(2) implicit]
      have "py_bases S c = [LazyKnownValues [TreeClass r]]" by simp
      with entry root_bases show ?thesis by (simp add: mro_entry_ok_def)
    qed
  qed
  with run entry session again show ?thesis by (auto simp: mro_entry_ok_def)
qed

lemma example_state_wf: "wf_state example_state"
  by (simp add: wf_state_def example_state_def py_bases_def get_bases_arguments_def
      atLeast_upt [symmetric] upt_rec)

lemma example_state_root: "builtin_root example_state 0"
  by (simp add: builtin_root_def no_explicit_bases_def example_state_def
      get_bases_arguments_def upt_rec nth_Cons')

lemma empty_session: "mro_of_session S Map.empty"
  by (simp add: mro_of_session_def)

theorem py_mro_starts_with_class_witness:
  "\<exists>lst memo'. py_mro 11 example_state Map.empty 1 = Some (lst, memo')
      \<and> lst \<noteq> [] \<and> hd lst = TreeClass 1 \<and> distinct lst \<and> last lst = TreeClass 0"
proof -
  have c: "1 < length (classes example_state)" and fuel: "length (classes example_state) < 11"
    by (simp_all add: example_state_def)
  have implicit: "no_explicit_bases example_state 1"
    by (simp add: no_explicit_bases_def example_state_def get_bases_arguments_def)
  from py_mro_starts_with_class [OF example_state_wf c empty_session fuel]
    example_state_root implicit
  show ?thesis by blast
qed

lemma example_state_mro:
  "map_option fst (py_mro 11 example_state Map.empty 1) = Some [TreeClass 1, TreeClass 0]"
  "map_option fst (py_mro 11 example_state Map.empty 6)
     = Some [TreeClass 6, TreeClass 2, TreeClass 1, TreeClass 0]"
  by code_simp+

lemma count_list_distinct: "distinct xs \<Longrightarrow> x \<in> set xs \<Longrightarrow> count_list xs x = 1"
  by (induction xs) auto

text \<open>
  C2. The same holds whatever the base expressions resolve to, a class whose bases lead
  back to itself included: \<open>py__mro__()\<close> returns within a depth of nested calls of one
  more than the number of classes, and the list has the class exactly once, a class met
  again while its own call is running being skipped. \<open>py__bases__()\<close> is a function
  without recursion; its list is no longer than the argument list, or is the one
  implicit base.
\<close>

theorem py_mro_cycle_terminates:
  assumes "wf_state S" and "c < length (classes S)"
    and "mro_of_session S memo" and "length (classes S) < fuel"
  shows "\<exists>lst memo'. py_mro fuel S memo c = Some (lst, memo')
           \<and> count_list lst (TreeClass c) = 1
           \<and> length (py_bases S c)
               \<le> (case get_bases_arguments S c of None \<Rightarrow> 1 | Some args \<Rightarrow> max 1 (length args))"
proof -
  from py_mro_session [OF assms] obtain lst memo'
    where run: "py_mro fuel S memo c = Some (lst, memo')" and entry: "mro_entry_ok S c lst"
    by blast
  from entry have "lst \<noteq> []" "hd lst = TreeClass c" and "distinct lst"
    by (simp_all add: mro_entry_ok_def)
  with hd_in_set [of lst] have "TreeClass c \<in> set lst" and "distinct lst"
    by simp_all
  then have "count_list lst (TreeClass c) = 1"
    by (simp add: count_list_distinct)
  moreover have "length (py_bases S c)
      \<le> (case get_bases_arguments S c of None \<Rightarrow> 1 | Some args \<Rightarrow> max 1 (length args))"
  proof (cases "get_bases_arguments S c")
    case None
    then show ?thesis by (simp add: py_bases_def)
  next
    case (Some args)
    have "length (filter (\<lambda>(key, v). key = None) args) \<le> length args" by simp
    with Some show ?thesis by (cases args) (auto simp: py_bases_def Let_def max_def)
  qed
  ultimately show ?thesis using run by blast
qed

theorem py_mro_cycle_terminates_witness:
  "TreeClass 4 \<in> set (infer example_state (hd (py_bases example_state 5)))
   \<and> TreeClass 5 \<in> set (infer example_state (hd (py_bases example_state 4)))
   \<and> TreeClass 9 \<in> set (infer example_state (hd (py_bases example_state 9)))
   \<and> (\<exists>lst memo'. py_mro 11 example_state Map.empty 4 = Some (lst, memo')
        \<and> count_list lst (TreeClass 4) = 1)
   \<and> (\<exists>lst memo'. py_mro 11 example_state Map.empty 9 = Some (lst, memo')
        \<and> count_list lst (TreeClass 9) = 1)"
proof -
  have c: "4 < length (classes example_state)" "9 < length (classes example_state)"
    and fuel: "length (classes example_state) < 11"
    by (simp_all add: example_state_def)
  have cycle: "TreeClass 4 \<in> set (infer example_state (hd (py_bases example_state 5)))"
    "TreeClass 5 \<in> set (infer example_state (hd (py_bases example_state 4)))"
    "TreeClass 9 \<in> set (infer example_state (hd (py_bases example_state 9)))"
    by (simp_all add: example_state_def py_bases_def get_bases_arguments_def)
  from py_mro_cycle_terminates [OF example_state_wf c(1) empty_session fuel]
    py_mro_cycle_terminates [OF example_state_wf c(2) empty_session fuel] cycle
  show ?thesis by blast
qed

lemma example_state_mro_cycle:
  "map_option fst (py_mro 11 example_state Map.empty 4) = Some [TreeClass 4, TreeClass 5]"
  "map_option fst (py_mro 11 example_state Map.empty 9) = Some [TreeClass 9]"
  by code_simp+

subsection \<open>Metaclasses\<close>












end
